theory Spec2Isabelle
  imports Main "HOL-Library.Finite_Map"
begin

section \<open>The host: what the module takes from its environment\<close>

text \<open>
  \<^verbatim>\<open>index.js\<close> exports one function of a gulp instance and an options object. It
  registers tasks on the gulp instance and keeps four closure variables. Everything else
  it uses is the host's: \<^verbatim>\<open>process.platform\<close>, \<^verbatim>\<open>gulp.seq\<close>, the colouring functions of
  \<^verbatim>\<open>gutil.colors\<close>. They are the fields of a record here, so that every result holds for
  each platform, task sequence and colouring.
\<close>

record host =
  platform :: string
  seq :: "string list"
  red :: "string \<Rightarrow> string"
  red_bold :: "string \<Rightarrow> string"
  green :: "string \<Rightarrow> string"
  green_bold :: "string \<Rightarrow> string"
  magenta :: "string \<Rightarrow> string"

text \<open>An error object of the host, as far as the module reads it: \<^verbatim>\<open>err.message\<close>.\<close>

datatype js_error = JsError (message: string)

text \<open>
  What \<^verbatim>\<open>gulp-jshint\<close> attaches to a file, as far as the module reads it:
  \<^verbatim>\<open>file.jshint.success\<close> and \<^verbatim>\<open>file.jshint.results\<close> (an array, read for its length only).
\<close>

record jshint =
  success :: bool
  results :: "string list"

text \<open>The effects the module has on the outside, in the order it performs them.\<close>

datatype effect =
    ConsoleLog "string list"
  | GutilLog string
  | GutilLogError js_error
  | Beep
  | EmitExit
  | ProcessExit nat

section \<open>The state of one process\<close>

text \<open>
  Lines 26 to 29: the four closure variables. They hold 0, 1 or a sum of array lengths, so
  they are natural numbers here (JavaScript adds such numbers exactly below \<open>2 ^ 53\<close>).
  \<open>out\<close> is the trace of effects, \<open>pending\<close> the number of callbacks that
  \<^verbatim>\<open>process.nextTick\<close> has queued (the module queues one kind only), and \<open>exited\<close> the
  status \<^verbatim>\<open>process.exit\<close> was called with, if it was called.
\<close>

record state =
  exitCode :: nat
  totalLintErrors :: nat
  totalFelintErrors :: nat
  lessError :: nat
  out :: "effect list"
  pending :: nat
  exited :: "nat option"

definition init :: state where
  "init = \<lparr>exitCode = 0, totalLintErrors = 0, totalFelintErrors = 0, lessError = 0,
            out = [], pending = 0, exited = None\<rparr>"

subsection \<open>Strings\<close>

text \<open>\<^verbatim>\<open>n + ''\<close> for a non-negative integer \<open>n\<close>: its decimal digits.\<close>

definition digit :: "nat \<Rightarrow> char" where
  "digit d = char_of (d + 48)"

fun string_of_nat :: "nat \<Rightarrow> string" where
  "string_of_nat n =
     (if 10 \<le> n then string_of_nat (n div 10) @ [digit (n mod 10)] else [digit n])"

declare string_of_nat.simps [simp del]

text \<open>An array of strings in a string concatenation: its elements joined by commas.\<close>

fun join_comma :: "string list \<Rightarrow> string" where
  "join_comma [] = []"
| "join_comma [x] = x"
| "join_comma (x # y # ys) = x @ '','' @ join_comma (y # ys)"

text \<open>The two marks of the source, U+2714 and U+2716 followed by a space, as UTF-8 bytes.\<close>

definition check_mark :: string where
  "check_mark = [CHR 0xE2, CHR 0x9C, CHR 0x94, CHR 0x20]"

definition cross_mark :: string where
  "cross_mark = [CHR 0xE2, CHR 0x9C, CHR 0x96, CHR 0x20]"

definition quote :: string where
  "quote = [CHR 0x27]"

definition newline :: string where
  "newline = [CHR 0x0A]"

subsection \<open>The host's operations on the state\<close>

definition console_log :: "string list \<Rightarrow> state \<Rightarrow> state" where
  "console_log args s = s\<lparr>out := out s @ [ConsoleLog args]\<rparr>"

definition gutil_log :: "string \<Rightarrow> state \<Rightarrow> state" where
  "gutil_log m s = s\<lparr>out := out s @ [GutilLog m]\<rparr>"

definition gutil_log_error :: "js_error \<Rightarrow> state \<Rightarrow> state" where
  "gutil_log_error e s = s\<lparr>out := out s @ [GutilLogError e]\<rparr>"

definition gutil_beep :: "state \<Rightarrow> state" where
  "gutil_beep s = s\<lparr>out := out s @ [Beep]\<rparr>"

text \<open>
  \<^verbatim>\<open>process.nextTick(callback)\<close> queues the callback; a process that is exiting drops it.
\<close>

definition nextTick :: "state \<Rightarrow> state" where
  "nextTick s = (if exited s = None then s\<lparr>pending := Suc (pending s)\<rparr> else s)"

section \<open>The module, function by function\<close>

text \<open>Lines 87 to 93, the listener of \<^verbatim>\<open>'exit'\<close>: it queues the callback below.\<close>

definition exit_listener :: "state \<Rightarrow> state" where
  "exit_listener s = nextTick s"

text \<open>
  \<^verbatim>\<open>process.emit('exit')\<close> calls the listeners of \<^verbatim>\<open>'exit'\<close> at once; the process goes on.
\<close>

definition process_emit_exit :: "state \<Rightarrow> state" where
  "process_emit_exit s = exit_listener (s\<lparr>out := out s @ [EmitExit]\<rparr>)"

text \<open>
  \<^verbatim>\<open>process.exit(code)\<close> marks the process as exiting, calls the listeners of \<^verbatim>\<open>'exit'\<close> and
  ends the process with that status.
\<close>

definition process_exit :: "nat \<Rightarrow> state \<Rightarrow> state" where
  "process_exit code s = exit_listener (s\<lparr>out := out s @ [ProcessExit code], exited := Some code\<rparr>)"

text \<open>Lines 88 to 92, the callback the listener queues.\<close>

definition exit_callback :: "host \<Rightarrow> state \<Rightarrow> state" where
  "exit_callback h s =
     (let msg = ''gulp '' @ quote @ join_comma (seq h) @ quote @ '' failed'';
          s1 = console_log [red h msg] s
      in process_exit (exitCode s1) s1)"

text \<open>Lines 95 to 99.\<close>

definition taskPassed :: "host \<Rightarrow> string \<Rightarrow> state \<Rightarrow> state" where
  "taskPassed h taskName s =
     (let check = green_bold h (if platform h \<noteq> ''win32'' then check_mark else []);
          msg = check @ ''gulp '' @ quote @ taskName @ quote @ '' passed''
      in console_log [green h msg] s)"

text \<open>Lines 102 to 107.\<close>

definition beforeEach :: "state \<Rightarrow> state" where
  "beforeEach s = s\<lparr>totalLintErrors := 0, totalFelintErrors := 0, exitCode := 0, lessError := 0\<rparr>"

subsection \<open>less\<close>

text \<open>
  Lines 113 to 121. \<open>lessTest\<close> is what the call does before it returns the stream;
  \<open>lessTest_on_error\<close> is the listener of \<^verbatim>\<open>'error'\<close> it attaches.
\<close>

definition lessTest :: "state \<Rightarrow> state" where
  "lessTest s = beforeEach s"

definition lessTest_on_error :: "js_error \<Rightarrow> state \<Rightarrow> state" where
  "lessTest_on_error err s = gutil_log_error err (s\<lparr>lessError := 1\<rparr>)"

text \<open>Lines 123 to 131.\<close>

definition lessOnEnd :: "host \<Rightarrow> state \<Rightarrow> state" where
  "lessOnEnd h s =
     (if lessError s \<noteq> 0
      then (let errString = newline @ (if platform h \<noteq> ''win32'' then cross_mark else [])
                              @ ''Less errors found'' @ newline
            in gutil_beep (console_log [red_bold h errString] s))
      else taskPassed h ''lessTest'' s)"

subsection \<open>lint\<close>

text \<open>
  Lines 145 to 157. \<open>lint\<close> is what the call does before it returns the stream;
  \<open>lint_map\<close> is the function given to \<^verbatim>\<open>map\<close>, called once for each file.
\<close>

definition lint :: "state \<Rightarrow> state" where
  "lint s = beforeEach s"

definition lint_map :: "jshint \<Rightarrow> state \<Rightarrow> state" where
  "lint_map file s =
     (if \<not> success file
      then s\<lparr>totalLintErrors := totalLintErrors s + length (results file), exitCode := 1\<rparr>
      else s)"

text \<open>Lines 159 to 167.\<close>

definition lintOnEnd :: "host \<Rightarrow> state \<Rightarrow> state" where
  "lintOnEnd h s =
     (let errString = string_of_nat (totalLintErrors s)
      in if exitCode s \<noteq> 0
         then gutil_beep (console_log [magenta h errString, ''errors'' @ newline] s)
         else taskPassed h ''lint'' s)"

text \<open>Lines 171 to 176, the listener of \<^verbatim>\<open>'end'\<close> in the task \<^verbatim>\<open>lint\<close>.\<close>

definition lint_on_end :: "host \<Rightarrow> state \<Rightarrow> state" where
  "lint_on_end h s =
     (let s1 = lintOnEnd h s
      in if exitCode s1 \<noteq> 0 then process_emit_exit s1 else s1)"

subsection \<open>felint\<close>

text \<open>Lines 194 to 206.\<close>

definition felint :: "state \<Rightarrow> state" where
  "felint s = beforeEach s"

definition felint_map :: "jshint \<Rightarrow> state \<Rightarrow> state" where
  "felint_map file s =
     (if \<not> success file
      then s\<lparr>totalFelintErrors := totalFelintErrors s + length (results file), exitCode := 1\<rparr>
      else s)"

text \<open>Lines 208 to 216.\<close>

definition felintOnEnd :: "host \<Rightarrow> state \<Rightarrow> state" where
  "felintOnEnd h s =
     (let errString = string_of_nat (totalFelintErrors s)
      in if exitCode s \<noteq> 0
         then gutil_beep (console_log [magenta h errString, ''errors'' @ newline] s)
         else taskPassed h ''felint'' s)"

text \<open>Lines 220 to 225, the listener of \<^verbatim>\<open>'end'\<close> in the task \<^verbatim>\<open>felint\<close>.\<close>

definition felint_on_end :: "host \<Rightarrow> state \<Rightarrow> state" where
  "felint_on_end h s =
     (let s1 = felintOnEnd h s
      in if exitCode s1 \<noteq> 0 then process_emit_exit s1 else s1)"

subsection \<open>test, cover\<close>

text \<open>Lines 243 to 247.\<close>

definition testErrorHandler :: "js_error \<Rightarrow> state \<Rightarrow> state" where
  "testErrorHandler err s = (gutil_log (message err) (gutil_beep s))\<lparr>exitCode := 1\<rparr>"

text \<open>Lines 249 to 257: what the call does before it returns the stream.\<close>

definition cover :: "state \<Rightarrow> state" where
  "cover s = beforeEach s"

text \<open>
  Lines 263 to 266 and 272 to 275, and lines 298 to 301: the listener of \<^verbatim>\<open>'error'\<close> in the
  tasks \<^verbatim>\<open>test-cover\<close> (on the test runner and on the coverage enforcer) and \<^verbatim>\<open>test\<close>.
\<close>

definition test_on_error :: "js_error \<Rightarrow> state \<Rightarrow> state" where
  "test_on_error err s = process_emit_exit (testErrorHandler err s)"

section \<open>The tasks and the events the host delivers to them\<close>

text \<open>The fourteen tasks the module registers, in the order of the source.\<close>

datatype task =
    LessTest | Lint | LintWatch | Felint | FelintWatch
  | TestCover | TestCoverWatch | Test | TestWatch
  | Plato | Ci | CiWatch | WatchAll | Watch

fun task_name :: "task \<Rightarrow> string" where
  "task_name LessTest = ''lessTest''"
| "task_name Lint = ''lint''"
| "task_name LintWatch = ''lint-watch''"
| "task_name Felint = ''felint''"
| "task_name FelintWatch = ''felint-watch''"
| "task_name TestCover = ''test-cover''"
| "task_name TestCoverWatch = ''test-cover-watch''"
| "task_name Test = ''test''"
| "task_name TestWatch = ''test-watch''"
| "task_name Plato = ''plato''"
| "task_name Ci = ''ci''"
| "task_name CiWatch = ''ci-watch''"
| "task_name WatchAll = ''watch-all''"
| "task_name Watch = ''watch''"

text \<open>Lines 355 and 357: the tasks registered with a list of dependencies.\<close>

fun dependencies :: "task \<Rightarrow> task list" where
  "dependencies Ci = [LessTest, Lint, Felint, TestCover]"
| "dependencies CiWatch = [LessTest, LintWatch, FelintWatch, TestCoverWatch]"
| "dependencies _ = []"

text \<open>Lines 360 and 364: the task that \<^verbatim>\<open>gulp.watch\<close> starts on every change.\<close>

fun watch_target :: "task \<Rightarrow> task option" where
  "watch_target WatchAll = Some CiWatch"
| "watch_target Watch = Some TestWatch"
| "watch_target _ = None"

text \<open>
  What reaches a task from outside: the scheduler calls its function (\<open>Invoke\<close>), the
  lint pipeline passes a file to the function given to \<^verbatim>\<open>map\<close> (\<open>File\<close>), a stream the
  task listens to emits \<^verbatim>\<open>'error'\<close> (\<open>Error\<close>) or \<^verbatim>\<open>'end'\<close> (\<open>End\<close>).
\<close>

datatype signal = Invoke | File jshint | Error js_error | End

datatype event = Ev task signal

text \<open>
  The code of the module that runs on a signal: the function of the task on \<open>Invoke\<close>,
  the listener the task has attached on the others. Where the task has attached none, no
  code of the module runs and the state of the module stays as it is: the tasks \<^verbatim>\<open>test\<close>
  and \<^verbatim>\<open>test-watch\<close> build their pipeline without calling \<^verbatim>\<open>beforeEach\<close>, \<^verbatim>\<open>test-cover\<close>
  passes \<^verbatim>\<open>'end'\<close> on to the scheduler's callback. What the host does with an \<^verbatim>\<open>'error'\<close>
  that has no listener is not code of the module and has no equation here: \<open>heard\<close>
  below says which \<^verbatim>\<open>'error'\<close> events have one, and the statements about whole runs of the
  process take events that are heard.
\<close>

fun handle :: "host \<Rightarrow> task \<Rightarrow> signal \<Rightarrow> state \<Rightarrow> state" where
  "handle h LessTest Invoke s = lessTest s"
| "handle h LessTest (Error err) s = lessTest_on_error err s"
| "handle h LessTest End s = lessOnEnd h s"
| "handle h Lint Invoke s = lint s"
| "handle h Lint (File f) s = lint_map f s"
| "handle h Lint End s = lint_on_end h s"
| "handle h LintWatch Invoke s = lint s"
| "handle h LintWatch (File f) s = lint_map f s"
| "handle h LintWatch End s = lintOnEnd h s"
| "handle h Felint Invoke s = felint s"
| "handle h Felint (File f) s = felint_map f s"
| "handle h Felint End s = felint_on_end h s"
| "handle h FelintWatch Invoke s = felint s"
| "handle h FelintWatch (File f) s = felint_map f s"
| "handle h FelintWatch End s = felintOnEnd h s"
| "handle h TestCover Invoke s = cover s"
| "handle h TestCover (Error err) s = test_on_error err s"
| "handle h TestCoverWatch Invoke s = cover s"
| "handle h TestCoverWatch (Error err) s = testErrorHandler err s"
| "handle h Test Invoke s = s"
| "handle h Test (Error err) s = test_on_error err s"
| "handle h TestWatch Invoke s = s"
| "handle h TestWatch (Error err) s = testErrorHandler err s"
| "handle h _ _ s = s"

text \<open>
  After the code of an event has returned, the host runs the callbacks of
  \<^verbatim>\<open>process.nextTick\<close>. The only callback the module queues ends in \<^verbatim>\<open>process.exit\<close>, which
  does not return: the first one to run is the last.
\<close>

definition tickCallback :: "host \<Rightarrow> state \<Rightarrow> state" where
  "tickCallback h s =
     (if exited s = None \<and> 0 < pending s
      then exit_callback h (s\<lparr>pending := pending s - 1\<rparr>)
      else s)"

text \<open>
  One turn of the event loop. The host calls the listeners of the events of the turn, one
  after the other, and only then runs the callbacks that \<^verbatim>\<open>process.nextTick\<close> has queued.
  A process that has exited receives nothing.
\<close>

fun dispatch :: "host \<Rightarrow> event \<Rightarrow> state \<Rightarrow> state" where
  "dispatch h (Ev T sg) s = handle h T sg s"

definition turn :: "host \<Rightarrow> event list \<Rightarrow> state \<Rightarrow> state" where
  "turn h evs s = (if exited s = None then tickCallback h (fold (dispatch h) evs s) else s)"

definition run_turns :: "host \<Rightarrow> event list list \<Rightarrow> state \<Rightarrow> state" where
  "run_turns h turns s = fold (turn h) turns s"

text \<open>An event that comes alone in its turn, and a run of such events.\<close>

fun deliver :: "host \<Rightarrow> event \<Rightarrow> state \<Rightarrow> state" where
  "deliver h (Ev T sg) s = (if exited s = None then tickCallback h (handle h T sg s) else s)"

definition run :: "host \<Rightarrow> event list \<Rightarrow> state \<Rightarrow> state" where
  "run h evs s = fold (deliver h) evs s"

text \<open>
  The real end of a process that nothing keeps alive: the host marks it as exiting, calls
  the listeners of \<^verbatim>\<open>'exit'\<close> and ends it, with status 0 as nothing has set another.
\<close>

definition process_end :: "state \<Rightarrow> state" where
  "process_end s = (if exited s = None then exit_listener (s\<lparr>exited := Some 0\<rparr>) else s)"

text \<open>
  The status the process ends with: the argument of \<^verbatim>\<open>process.exit\<close>, and 0 for a process
  that ends without that call.
\<close>

definition exit_status :: "state \<Rightarrow> nat" where
  "exit_status s = (case exited s of None \<Rightarrow> 0 | Some code \<Rightarrow> code)"

text \<open>The tasks whose function calls \<open>lessTest\<close>, \<open>lint\<close>, \<open>felint\<close> or \<open>cover\<close>.\<close>

definition resetting_tasks :: "task list" where
  "resetting_tasks = [LessTest, Lint, LintWatch, Felint, FelintWatch, TestCover, TestCoverWatch]"

text \<open>A host for the examples: a POSIX platform, the sequence \<^verbatim>\<open>ci\<close>, colours switched off.\<close>

definition posix :: host where
  "posix = \<lparr>platform = ''linux'', seq = [''ci''], red = (\<lambda>x. x), red_bold = (\<lambda>x. x),
             green = (\<lambda>x. x), green_bold = (\<lambda>x. x), magenta = (\<lambda>x. x)\<rparr>"

definition passing :: jshint where
  "passing = \<lparr>success = True, results = []\<rparr>"

definition four_violations :: jshint where
  "four_violations = \<lparr>success = False, results = [''W033'', ''W033'', ''W117'', ''W098'']\<rparr>"

section \<open>The options\<close>

text \<open>
  The values an options object is made of. An object is a finite map from property names
  to values; a property that is absent reads as \<open>Undefined\<close>.
\<close>

datatype json =
    Undefined | Null | Boolean bool | Number int | String string
  | Array "json list"
  | Object "(string, json) fmap"

fun is_array :: "json \<Rightarrow> bool" where
  "is_array (Array xs) = True"
| "is_array _ = False"

fun is_object :: "json \<Rightarrow> bool" where
  "is_object (Object fs) = True"
| "is_object _ = False"

definition property :: "(string, json) fmap \<Rightarrow> string \<Rightarrow> json" where
  "property fs k = (case fmlookup fs k of None \<Rightarrow> Undefined | Some v \<Rightarrow> v)"

text \<open>
  Lines 32 to 77, the defaults. The two paths that \<^verbatim>\<open>path.join\<close> builds from
  \<^verbatim>\<open>__dirname\<close> are parameters.
\<close>

definition default_options :: "string \<Rightarrow> string \<Rightarrow> json" where
  "default_options server client = Object (fmap_of_list [
     (''coverageSettings'', Object (fmap_of_list [
        (''thresholds'', Object (fmap_of_list [
           (''statements'', Number 80), (''branches'', Number 70),
           (''lines'', Number 80), (''functions'', Number 80)])),
        (''coverageDirectory'', String ''./target/coverage''),
        (''rootDirectory'', String [])])),
     (''paths'', Object (fmap_of_list [
        (''lint'', Array [String ''lib/**/*.js'', String ''test/**/*.js'',
                          String ''!node_modules/**'', String ''!target/**'']),
        (''felint'', Array [String ''content/**/*.js'']),
        (''cover'', Array [String ''lib/**/*.js'']),
        (''test'', Array [String ''test/**/*.js'']),
        (''styles'', Object (fmap_of_list [
           (''less'', Array [String ''content/styles/less/*.less''])]))])),
     (''jshintrc'', Object (fmap_of_list [
        (''server'', String server), (''client'', String client)])),
     (''showStreamSize'', Boolean False),
     (''complexity'', Object (fmap_of_list [
        (''destDir'', String ''./target/complexity''),
        (''options'', Object fmempty)])),
     (''lessOpts'', Object (fmap_of_list [(''paths'', Array [])]))])"

text \<open>Lines 79 to 81, the function given to \<^verbatim>\<open>_.merge\<close>.\<close>

definition customizer :: "json \<Rightarrow> json \<Rightarrow> json" where
  "customizer a b = (if is_array a then b else Undefined)"

text \<open>
  Modelled from the spec: \<^verbatim>\<open>_.merge\<close> of lodash, which is not among the sources. It is the
  deep merge of a source into a destination that the spec names: for each property of the
  source, the callback is asked first, and what it returns is assigned unless it is
  \<^verbatim>\<open>undefined\<close>; otherwise an array or an object of the source is merged, property by
  property, into the destination's value (into a new array or object where the
  destination has none), and any other value of the source is assigned unless it is
  \<^verbatim>\<open>undefined\<close>. \<open>merge_value callback source value\<close> is what the property ends with,
  \<open>value\<close> being what the destination had.
\<close>

definition assign :: "(json \<Rightarrow> json \<Rightarrow> json) \<Rightarrow> json \<Rightarrow> json \<Rightarrow> json" where
  "assign callback source value =
     (let result = callback value source;
          result = (if result = Undefined then source else result)
      in if result = Undefined then value else result)"

text \<open>
  Modelled from the spec: the merge of the elements of a source array, index by index,
  into the elements the destination has; \<open>fs\<close> are the merges of the source's elements.
\<close>

fun assign_elements :: "(json \<Rightarrow> json) list \<Rightarrow> json list \<Rightarrow> json list" where
  "assign_elements [] xs = xs"
| "assign_elements (f # fs) [] = f Undefined # assign_elements fs []"
| "assign_elements (f # fs) (x # xs) = f x # assign_elements fs xs"

text \<open>
  Modelled from the spec: the merge of the properties of a source object, name by name,
  into the destination; a property the source does not have is kept.
\<close>

definition assign_properties ::
  "(string, json \<Rightarrow> json) fmap \<Rightarrow> (string, json) fmap \<Rightarrow> (string, json) fmap" where
  "assign_properties fs object = object ++\<^sub>f fmmap_keys (\<lambda>k f. f (property object k)) fs"

text \<open>
  Modelled from the spec: the value a property ends with, by the kind of the source's value.
\<close>

primrec merge_value :: "(json \<Rightarrow> json \<Rightarrow> json) \<Rightarrow> json \<Rightarrow> json \<Rightarrow> json" where
  "merge_value callback Undefined value = assign callback Undefined value"
| "merge_value callback Null value = assign callback Null value"
| "merge_value callback (Boolean b) value = assign callback (Boolean b) value"
| "merge_value callback (Number n) value = assign callback (Number n) value"
| "merge_value callback (String x) value = assign callback (String x) value"
| "merge_value callback (Array xs) value =
     (let result = callback value (Array xs)
      in if result = Undefined
         then Array (assign_elements (map (merge_value callback) xs)
                (case value of Array ys \<Rightarrow> ys | _ \<Rightarrow> []))
         else result)"
| "merge_value callback (Object fs) value =
     (let result = callback value (Object fs)
      in if result = Undefined
         then Object (assign_properties (fmmap (merge_value callback) fs)
                (case value of Object gs \<Rightarrow> gs | _ \<Rightarrow> fmempty))
         else result)"

text \<open>
  Modelled from the spec: \<^verbatim>\<open>_.merge(object, source, callback)\<close>, the properties of the
  source merged into the object. A source that is no object has no property of its own.
\<close>

definition merge :: "json \<Rightarrow> json \<Rightarrow> (json \<Rightarrow> json \<Rightarrow> json) \<Rightarrow> json" where
  "merge object source callback =
     (case object of
        Object gs \<Rightarrow>
          (case source of
             Object fs \<Rightarrow> Object (assign_properties (fmmap (merge_value callback) fs) gs)
           | _ \<Rightarrow> object)
      | _ \<Rightarrow> object)"

text \<open>Lines 32 to 81: \<^verbatim>\<open>gulp.options\<close> once the module has merged the caller's options.\<close>

definition gulp_options :: "string \<Rightarrow> string \<Rightarrow> json \<Rightarrow> json" where
  "gulp_options server client options = merge (default_options server client) options customizer"

text \<open>The value at the end of a path of property names, if every step of the path exists.\<close>

fun at :: "json \<Rightarrow> string list \<Rightarrow> json option" where
  "at v [] = Some v"
| "at (Object fs) (k # ks) = (case fmlookup fs k of None \<Rightarrow> None | Some w \<Rightarrow> at w ks)"
| "at _ (k # ks) = None"

text \<open>Options of a caller: other files to lint, a stricter threshold for branches.\<close>

definition my_options :: json where
  "my_options = Object (fmap_of_list [
     (''paths'', Object (fmap_of_list [(''lint'', Array [String ''src/**/*.js''])])),
     (''coverageSettings'', Object (fmap_of_list [
        (''thresholds'', Object (fmap_of_list [(''branches'', Number 90)]))]))])"

section \<open>Notions the statements use\<close>

text \<open>
  The number of violations the lint engine reported in the files it failed: the sum of
  \<^verbatim>\<open>file.jshint.results.length\<close> over the files with \<^verbatim>\<open>file.jshint.success\<close> false.
\<close>

definition violations :: "jshint list \<Rightarrow> nat" where
  "violations files = sum_list (map (\<lambda>f. length (results f)) (filter (\<lambda>f. \<not> success f) files))"

text \<open>A run of \<^verbatim>\<open>lint-watch\<close> over three files, one of them with four violations.\<close>

definition first_run :: "event list" where
  "first_run = [Ev LintWatch Invoke, Ev LintWatch (File passing),
                Ev LintWatch (File four_violations), Ev LintWatch End]"

fun task_of :: "event \<Rightarrow> task" where
  "task_of (Ev T sg) = T"

fun signal_of :: "event \<Rightarrow> signal" where
  "signal_of (Ev T sg) = sg"

text \<open>The effects that concern the end of the process.\<close>

fun exit_effect :: "effect \<Rightarrow> bool" where
  "exit_effect EmitExit = True"
| "exit_effect (ProcessExit code) = True"
| "exit_effect _ = False"



text \<open>The message of the callback of lines 88 to 92.\<close>

definition failed_message :: "host \<Rightarrow> string" where
  "failed_message h = red h (''gulp '' @ quote @ join_comma (seq h) @ quote @ '' failed'')"

text \<open>
  The tasks that run in watch mode: the watchers of lines 360 and 364 start \<^verbatim>\<open>ci-watch\<close>,
  which is its four dependencies, and \<^verbatim>\<open>test-watch\<close>.
\<close>

definition watch_mode_tasks :: "task list" where
  "watch_mode_tasks = dependencies CiWatch @ [TestWatch]"

text \<open>
  How an external tool tells a task that it failed: the lint engine by a file whose
  \<^verbatim>\<open>success\<close> is false, the style compiler, the test runner and the coverage enforcer
  by an \<^verbatim>\<open>'error'\<close> event.
\<close>

fun reports_failure :: "event \<Rightarrow> bool" where
  "reports_failure (Ev LessTest (Error err)) = True"
| "reports_failure (Ev Lint (File f)) = (\<not> success f)"
| "reports_failure (Ev LintWatch (File f)) = (\<not> success f)"
| "reports_failure (Ev Felint (File f)) = (\<not> success f)"
| "reports_failure (Ev FelintWatch (File f)) = (\<not> success f)"
| "reports_failure (Ev TestCover (Error err)) = True"
| "reports_failure (Ev TestCoverWatch (Error err)) = True"
| "reports_failure (Ev Test (Error err)) = True"
| "reports_failure (Ev TestWatch (Error err)) = True"
| "reports_failure _ = False"

text \<open>A task succeeds in a run when no event of the run reports it a failure.\<close>

definition succeeded :: "task \<Rightarrow> event list \<Rightarrow> bool" where
  "succeeded T evs = (\<not> list_ex (\<lambda>e. task_of e = T \<and> reports_failure e) evs)"

text \<open>
  The \<^verbatim>\<open>'error'\<close> events that have a listener of the module: those of the style compiler
  in \<^verbatim>\<open>lessTest\<close> (line 117) and of the test runner and the coverage enforcer in the four
  test tasks (lines 263, 272, 284, 290, 298 and 313). The lint pipelines have none. Every
  other signal is heard: it has code of the module, or nothing that could fail for lack of it.
\<close>

fun heard :: "event \<Rightarrow> bool" where
  "heard (Ev LessTest (Error err)) = True"
| "heard (Ev TestCover (Error err)) = True"
| "heard (Ev TestCoverWatch (Error err)) = True"
| "heard (Ev Test (Error err)) = True"
| "heard (Ev TestWatch (Error err)) = True"
| "heard (Ev T (Error err)) = False"
| "heard _ = True"

text \<open>
  The listeners that escalate (lines 171 to 176, 220 to 225, 263 to 266, 272 to 275 and 298
  to 301): the end of the lint and of the felint pipeline, and an error of the test runner
  or of the coverage enforcer in \<^verbatim>\<open>test-cover\<close> and in \<^verbatim>\<open>test\<close>.
\<close>

fun escalation :: "event \<Rightarrow> bool" where
  "escalation (Ev Lint End) = True"
| "escalation (Ev Felint End) = True"
| "escalation (Ev TestCover (Error err)) = True"
| "escalation (Ev Test (Error err)) = True"
| "escalation _ = False"

text \<open>
  A run of \<^verbatim>\<open>ci\<close>: in one turn the scheduler invokes the four dependencies, in their order;
  then come the turns with the events of the pipelines, in any interleaving and any grouping.
\<close>

definition ci_start :: "event list" where
  "ci_start = map (\<lambda>T. Ev T Invoke) (dependencies Ci)"

definition pipeline_events :: "event list \<Rightarrow> bool" where
  "pipeline_events evs =
     list_all (\<lambda>e. task_of e \<in> set (dependencies Ci) \<and> signal_of e \<noteq> Invoke \<and> heard e) evs"

text \<open>The pipeline of a task has ended: the last signal of the task, if it has any, is \<^verbatim>\<open>'end'\<close>.\<close>

definition ended :: "task \<Rightarrow> event list \<Rightarrow> bool" where
  "ended T evs =
     (let sgs = map signal_of (filter (\<lambda>e. task_of e = T) evs) in sgs = [] \<or> last sgs = End)"

text \<open>A run of \<^verbatim>\<open>ci\<close> in which the style compiler fails and everything else passes.\<close>

definition less_fails :: "event list list" where
  "less_fails = [[Ev LessTest (Error (JsError ''ParseError''))],
                 [Ev LessTest End, Ev Lint (File passing)],
                 [Ev Lint End, Ev Felint (File passing), Ev Felint End],
                 [Ev TestCover End]]"

text \<open>
  A run of \<^verbatim>\<open>ci\<close> in which one linted file has four violations, and the lint and the
  felint pipeline end in the same turn.
\<close>

definition lint_fails :: "event list list" where
  "lint_fails = [[Ev LessTest End],
                 [Ev Lint (File passing), Ev Lint (File four_violations)],
                 [Ev Felint (File passing)],
                 [Ev Felint End, Ev Lint End],
                 [Ev TestCover End]]"

text \<open>Watch mode: \<^verbatim>\<open>ci-watch\<close> with a lint failure and a failing test, then \<^verbatim>\<open>test-watch\<close>.\<close>

definition watch_run :: "event list" where
  "watch_run = [Ev LessTest Invoke, Ev LintWatch Invoke, Ev FelintWatch Invoke,
                Ev TestCoverWatch Invoke, Ev LintWatch (File four_violations), Ev LintWatch End,
                Ev FelintWatch End, Ev LessTest End,
                Ev TestCoverWatch (Error (JsError ''1 test failed'')),
                Ev TestWatch Invoke, Ev TestWatch (Error (JsError ''1 test failed''))]"




text \<open>A run of \<^verbatim>\<open>lint\<close> over one file that passes.\<close>

definition passing_run :: "event list" where
  "passing_run = [Ev Lint Invoke, Ev Lint (File passing), Ev Lint End]"

section \<open>Facts about delivery\<close>

lemmas host_ops = console_log_def gutil_log_def gutil_log_error_def gutil_beep_def nextTick_def
  exit_listener_def process_emit_exit_def process_exit_def

lemmas handlers = exit_callback_def taskPassed_def beforeEach_def lessTest_def lessTest_on_error_def
  lessOnEnd_def lint_def lint_map_def lintOnEnd_def lint_on_end_def felint_def felint_map_def
  felintOnEnd_def felint_on_end_def testErrorHandler_def cover_def test_on_error_def

declare deliver.simps [simp del]

lemmas concrete = deliver.simps init_def tickCallback_def

lemma run_Nil [simp]: "run h [] s = s"
  by (simp add: run_def)

lemma run_Cons [simp]: "run h (e # evs) s = run h evs (deliver h e s)"
  by (simp add: run_def)

lemma run_append: "run h (evs @ evs') s = run h evs' (run h evs s)"
  by (simp add: run_def)

lemma deliver_alive:
  "exited s = None \<Longrightarrow> deliver h (Ev T sg) s = tickCallback h (handle h T sg s)"
  by (simp add: deliver.simps)

lemma deliver_dead: "exited s \<noteq> None \<Longrightarrow> deliver h e s = s"
  by (cases e) (auto simp: deliver.simps)

lemma run_dead: "exited s \<noteq> None \<Longrightarrow> run h evs s = s"
  by (induction evs) (simp_all add: deliver_dead)

lemma invoke_resetting:
  "T \<in> set resetting_tasks \<Longrightarrow> handle h T Invoke s = beforeEach s"
  by (auto simp: resetting_tasks_def lessTest_def lint_def felint_def cover_def)

text \<open>Effects already in the trace do not change what an event does.\<close>

lemma handle_out_prefix:
  "handle h T sg (s\<lparr>out := p @ out s\<rparr>) = (handle h T sg s)\<lparr>out := p @ out (handle h T sg s)\<rparr>"
  by (cases "(h, T, sg, s)" rule: handle.cases) (simp_all add: host_ops handlers Let_def)

lemma tickCallback_out_prefix:
  "tickCallback h (s\<lparr>out := p @ out s\<rparr>) = (tickCallback h s)\<lparr>out := p @ out (tickCallback h s)\<rparr>"
  by (simp add: tickCallback_def host_ops handlers Let_def)

lemma deliver_out_prefix:
  "deliver h e (s\<lparr>out := p @ out s\<rparr>) = (deliver h e s)\<lparr>out := p @ out (deliver h e s)\<rparr>"
proof (cases e)
  case (Ev T sg)
  let ?t = "handle h T sg s"
  have "tickCallback h (?t\<lparr>out := p @ out ?t\<rparr>) = (tickCallback h ?t)\<lparr>out := p @ out (tickCallback h ?t)\<rparr>"
    by (rule tickCallback_out_prefix)
  then show ?thesis
    by (simp add: Ev deliver.simps handle_out_prefix)
qed

lemma run_out_prefix:
  "run h evs (s\<lparr>out := p @ out s\<rparr>) = (run h evs s)\<lparr>out := p @ out (run h evs s)\<rparr>"
proof (induction evs arbitrary: s)
  case Nil
  show ?case by simp
next
  case (Cons e evs)
  show ?case
    by (simp only: run_Cons deliver_out_prefix Cons.IH)
qed

text \<open>The files of a lint pipeline, one after the other.\<close>

lemma lint_files:
  assumes "exited s = None" and "pending s = 0" and "T = Lint \<or> T = LintWatch"
  shows "run h (map (\<lambda>f. Ev T (File f)) files) s =
         s\<lparr>totalLintErrors := totalLintErrors s + violations files,
           exitCode := (if list_ex (\<lambda>f. \<not> success f) files then 1 else exitCode s)\<rparr>"
  using assms
proof (induction files arbitrary: s)
  case Nil
  show ?case by (simp add: violations_def)
next
  case (Cons f files)
  let ?s = "deliver h (Ev T (File f)) s"
  have d: "?s = lint_map f s"
    using Cons.prems by (auto simp: deliver_alive tickCallback_def lint_map_def)
  have "exited ?s = None" "pending ?s = 0"
    using Cons.prems by (simp_all add: d lint_map_def)
  from Cons.IH [OF this Cons.prems(3)] show ?case
    by (simp add: d) (simp add: lint_map_def violations_def)
qed

lemma felint_files:
  assumes "exited s = None" and "pending s = 0" and "T = Felint \<or> T = FelintWatch"
  shows "run h (map (\<lambda>f. Ev T (File f)) files) s =
         s\<lparr>totalFelintErrors := totalFelintErrors s + violations files,
           exitCode := (if list_ex (\<lambda>f. \<not> success f) files then 1 else exitCode s)\<rparr>"
  using assms
proof (induction files arbitrary: s)
  case Nil
  show ?case by (simp add: violations_def)
next
  case (Cons f files)
  let ?s = "deliver h (Ev T (File f)) s"
  have d: "?s = felint_map f s"
    using Cons.prems by (auto simp: deliver_alive tickCallback_def felint_map_def)
  have "exited ?s = None" "pending ?s = 0"
    using Cons.prems by (simp_all add: d felint_map_def)
  from Cons.IH [OF this Cons.prems(3)] show ?case
    by (simp add: d) (simp add: felint_map_def violations_def)
qed

section \<open>Failures of the external tools\<close>

text \<open>
  C1, as the code has it. An error of the test runner or of the coverage enforcer, in each
  of the four tasks that listen for one, sets \<open>exitCode\<close> to 1 in the listener itself,
  whatever the state was. An error event of the style compiler sets \<open>lessError\<close> to 1
  and leaves \<open>exitCode\<close> as it was.
\<close>

theorem error_listeners_set_their_flag:
  "exitCode (handle h Test (Error err) s) = 1 \<and>
   exitCode (handle h TestWatch (Error err) s) = 1 \<and>
   exitCode (handle h TestCover (Error err) s) = 1 \<and>
   exitCode (handle h TestCoverWatch (Error err) s) = 1 \<and>
   lessError (handle h LessTest (Error err) s) = 1 \<and>
   exitCode (handle h LessTest (Error err) s) = exitCode s"
  by (simp add: host_ops handlers)

text \<open>
  C1 as it is stated fails for the style compiler: after \<^verbatim>\<open>lessTest\<close> has started and its
  stream has emitted an error, \<open>exitCode\<close> is still 0.
\<close>

theorem less_error_leaves_exitCode:
  "exitCode (run posix [Ev LessTest Invoke, Ev LessTest (Error (JsError ''ParseError''))] init) = 0"
  by (simp add: concrete host_ops handlers)

section \<open>The reset\<close>

text \<open>
  C3, as the code has it. Each of the seven tasks built on \<open>lessTest\<close>, \<open>lint\<close>,
  \<open>felint\<close> or \<open>cover\<close> resets the state when it is invoked, before its pipeline has
  produced anything: right after, the three counters and \<open>exitCode\<close> are 0, and the
  trace of effects is what it was.
\<close>

theorem invoke_resets:
  assumes "T \<in> set resetting_tasks"
  shows "exitCode (handle h T Invoke s) = 0 \<and> totalLintErrors (handle h T Invoke s) = 0 \<and>
         totalFelintErrors (handle h T Invoke s) = 0 \<and> lessError (handle h T Invoke s) = 0 \<and>
         out (handle h T Invoke s) = out s"
  using assms by (simp add: invoke_resetting beforeEach_def)

theorem invoke_resets_witness:
  "LintWatch \<in> set resetting_tasks \<and>
   exitCode (handle posix LintWatch Invoke (init\<lparr>exitCode := 1, totalLintErrors := 4\<rparr>)) = 0 \<and>
   totalLintErrors (handle posix LintWatch Invoke (init\<lparr>exitCode := 1, totalLintErrors := 4\<rparr>)) = 0"
proof -
  have m: "LintWatch \<in> set resetting_tasks"
    by (simp add: resetting_tasks_def)
  show ?thesis
    using m invoke_resets [OF m, of posix "init\<lparr>exitCode := 1, totalLintErrors := 4\<rparr>"] by simp
qed

text \<open>
  C3 as it is stated fails for \<^verbatim>\<open>test-watch\<close>: the task is invoked, its test runner
  fails, the watcher invokes the task again, and \<open>exitCode\<close> is still 1 after that
  second invocation.
\<close>

theorem test_watch_keeps_flag:
  "exitCode (run posix [Ev TestWatch Invoke, Ev TestWatch (Error (JsError ''1 test failed'')),
                        Ev TestWatch Invoke] init) = 1"
  by (simp add: concrete host_ops handlers)

text \<open>
  C10. Whatever events the process has received, from whichever tasks, as long as it is
  alive: invoking a task built on \<open>lessTest\<close>, \<open>lint\<close>, \<open>felint\<close> or \<open>cover\<close>
  leaves every counter and \<open>exitCode\<close> at 0, those of the other tasks included.
\<close>

theorem reset_erases_every_category:
  assumes "exited (run h evs s) = None" and "T \<in> set resetting_tasks"
  shows "exitCode (run h (evs @ [Ev T Invoke]) s) = 0 \<and>
         totalLintErrors (run h (evs @ [Ev T Invoke]) s) = 0 \<and>
         totalFelintErrors (run h (evs @ [Ev T Invoke]) s) = 0 \<and>
         lessError (run h (evs @ [Ev T Invoke]) s) = 0"
proof -
  let ?s = "run h evs s"
  have r: "run h (evs @ [Ev T Invoke]) s = tickCallback h (beforeEach ?s)"
    using assms by (simp add: run_append deliver_alive invoke_resetting)
  show ?thesis
    unfolding r by (simp add: tickCallback_def handlers host_ops)
qed

text \<open>
  The lint pipeline has counted four violations when \<^verbatim>\<open>felint\<close> starts: the count and the
  flag are gone.
\<close>

theorem reset_erases_every_category_witness:
  "exited (run posix [Ev Lint Invoke, Ev Lint (File four_violations)] init) = None \<and>
   Felint \<in> set resetting_tasks \<and>
   totalLintErrors (run posix [Ev Lint Invoke, Ev Lint (File four_violations)] init) = 4 \<and>
   exitCode (run posix [Ev Lint Invoke, Ev Lint (File four_violations)] init) = 1 \<and>
   totalLintErrors (run posix ([Ev Lint Invoke, Ev Lint (File four_violations)] @ [Ev Felint Invoke]) init) = 0 \<and>
   exitCode (run posix ([Ev Lint Invoke, Ev Lint (File four_violations)] @ [Ev Felint Invoke]) init) = 0"
proof -
  have a: "exited (run posix [Ev Lint Invoke, Ev Lint (File four_violations)] init) = None"
    by (simp add: concrete four_violations_def handlers)
  have m: "Felint \<in> set resetting_tasks"
    by (simp add: resetting_tasks_def)
  have b: "totalLintErrors (run posix [Ev Lint Invoke, Ev Lint (File four_violations)] init) = 4"
    "exitCode (run posix [Ev Lint Invoke, Ev Lint (File four_violations)] init) = 1"
    by (simp_all add: concrete four_violations_def handlers)
  show ?thesis
    using a m b reset_erases_every_category [OF a m] by simp
qed

section \<open>Counting\<close>

text \<open>
  C4. One run of \<^verbatim>\<open>lint\<close>, and one of \<^verbatim>\<open>felint\<close>, over any list of files: the counter
  of the category ends at the sum of the numbers of results of the files that failed.
  The files that passed, wherever they stand in the list, add nothing.
\<close>

theorem lint_total_is_sum:
  assumes "exited s = None" and "pending s = 0"
  shows "totalLintErrors (run h (Ev Lint Invoke # map (\<lambda>f. Ev Lint (File f)) files) s) = violations files \<and>
         totalFelintErrors (run h (Ev Felint Invoke # map (\<lambda>f. Ev Felint (File f)) files) s) = violations files"
proof -
  have l: "deliver h (Ev Lint Invoke) s = beforeEach s" "deliver h (Ev Felint Invoke) s = beforeEach s"
    using assms by (simp_all add: deliver_alive tickCallback_def lint_def felint_def beforeEach_def)
  have b: "exited (beforeEach s) = None" "pending (beforeEach s) = 0"
    using assms by (simp_all add: beforeEach_def)
  show ?thesis
    by (simp add: l lint_files [OF b] felint_files [OF b]) (simp add: beforeEach_def)
qed

theorem lint_total_is_sum_witness:
  "exited init = None \<and> pending init = 0 \<and>
   totalLintErrors (run posix (Ev Lint Invoke #
      map (\<lambda>f. Ev Lint (File f)) [passing, four_violations, passing]) init) = 4 \<and>
   violations [passing, four_violations, passing] = 4"
proof -
  have a: "exited init = None" "pending init = 0"
    by (simp_all add: init_def)
  have v: "violations [passing, four_violations, passing] = 4"
    by (simp add: violations_def passing_def four_violations_def)
  show ?thesis
    using a v lint_total_is_sum [OF a, of posix "[passing, four_violations, passing]"] by simp
qed

section \<open>Two invocations in a row\<close>

text \<open>
  C7, as the code has it. Take a task built on \<open>lessTest\<close>, \<open>lint\<close>, \<open>felint\<close> or
  \<open>cover\<close>, and any state \<open>s\<close> an earlier invocation has left in a process that is
  still alive. An invocation from \<open>s\<close> followed by any events ends with the counters,
  the flag and the exit the same events give in a fresh process, and adds to the trace
  exactly the effects it has there.
\<close>

theorem second_invocation_is_fresh:
  assumes "T \<in> set resetting_tasks" and "exited s = None" and "pending s = 0"
  shows "exitCode (run h (Ev T Invoke # evs) s) = exitCode (run h (Ev T Invoke # evs) init) \<and>
         totalLintErrors (run h (Ev T Invoke # evs) s) = totalLintErrors (run h (Ev T Invoke # evs) init) \<and>
         totalFelintErrors (run h (Ev T Invoke # evs) s) = totalFelintErrors (run h (Ev T Invoke # evs) init) \<and>
         lessError (run h (Ev T Invoke # evs) s) = lessError (run h (Ev T Invoke # evs) init) \<and>
         exited (run h (Ev T Invoke # evs) s) = exited (run h (Ev T Invoke # evs) init) \<and>
         out (run h (Ev T Invoke # evs) s) = out s @ out (run h (Ev T Invoke # evs) init)"
proof -
  let ?i = "deliver h (Ev T Invoke) init"
  have i: "?i = init"
    using assms(1) by (simp add: deliver.simps invoke_resetting) (simp add: init_def beforeEach_def tickCallback_def)
  have "deliver h (Ev T Invoke) s = beforeEach s"
    using assms by (simp add: deliver_alive invoke_resetting) (simp add: beforeEach_def tickCallback_def)
  also have "\<dots> = init\<lparr>out := out s @ out init\<rparr>"
    using assms(2,3) by (simp add: beforeEach_def init_def)
  finally have "run h (Ev T Invoke # evs) s = run h evs (init\<lparr>out := out s @ out init\<rparr>)"
    by simp
  also have "\<dots> = (run h evs init)\<lparr>out := out s @ out (run h evs init)\<rparr>"
    by (rule run_out_prefix)
  finally show ?thesis
    by (simp add: i)
qed

text \<open>
  \<^verbatim>\<open>lint-watch\<close> twice: the first run ends with four errors and the flag set, the second
  one, over a file that passes, with none and the flag clear.
\<close>

theorem second_invocation_is_fresh_witness:
  "LintWatch \<in> set resetting_tasks \<and> exited (run posix first_run init) = None \<and>
   pending (run posix first_run init) = 0 \<and> totalLintErrors (run posix first_run init) = 4 \<and>
   exitCode (run posix first_run init) = 1 \<and>
   totalLintErrors (run posix [Ev LintWatch Invoke, Ev LintWatch (File passing), Ev LintWatch End]
     (run posix first_run init)) = 0 \<and>
   exitCode (run posix [Ev LintWatch Invoke, Ev LintWatch (File passing), Ev LintWatch End]
     (run posix first_run init)) = 0"
proof -
  have m: "LintWatch \<in> set resetting_tasks"
    by (simp add: resetting_tasks_def)
  have a: "exited (run posix first_run init) = None" "pending (run posix first_run init) = 0"
    by (simp_all add: first_run_def concrete passing_def four_violations_def host_ops handlers)
  have b: "totalLintErrors (run posix first_run init) = 4" "exitCode (run posix first_run init) = 1"
    by (simp_all add: first_run_def concrete passing_def four_violations_def host_ops handlers)
  have c: "totalLintErrors (run posix [Ev LintWatch Invoke, Ev LintWatch (File passing), Ev LintWatch End] init) = 0"
    "exitCode (run posix [Ev LintWatch Invoke, Ev LintWatch (File passing), Ev LintWatch End] init) = 0"
    by (simp_all add: concrete passing_def host_ops handlers)
  show ?thesis
    using m a b c second_invocation_is_fresh [OF m a, of posix "[Ev LintWatch (File passing), Ev LintWatch End]"]
    by simp
qed

text \<open>
  C7 as it is stated fails for the leaf task \<^verbatim>\<open>test-watch\<close>: invoked after a run of
  itself that failed, it starts with a flag that differs from the one of a first invocation.
\<close>

theorem test_watch_runs_not_independent:
  "exitCode (run posix [Ev TestWatch Invoke]
     (run posix [Ev TestWatch Invoke, Ev TestWatch (Error (JsError ''1 test failed''))] init))
   \<noteq> exitCode (run posix [Ev TestWatch Invoke] init)"
  by (simp add: concrete host_ops handlers)

section \<open>Watch mode\<close>

text \<open>No code of a task of watch mode touches the exit of the process.\<close>

lemma step_watch:
  assumes "T \<in> set watch_mode_tasks"
  shows "exited (handle h T sg s) = exited s \<and> pending (handle h T sg s) = pending s \<and>
         filter exit_effect (out (handle h T sg s)) = filter exit_effect (out s)"
  using assms
  by (cases "(h, T, sg, s)" rule: handle.cases)
     (simp_all add: watch_mode_tasks_def host_ops handlers Let_def)

text \<open>
  C6. A process that is alive and receives events of the tasks of watch mode only
  (\<^verbatim>\<open>lint-watch\<close>, \<^verbatim>\<open>felint-watch\<close>, \<^verbatim>\<open>test-cover-watch\<close>, \<^verbatim>\<open>test-watch\<close>, and \<^verbatim>\<open>lessTest\<close>,
  which \<^verbatim>\<open>ci-watch\<close> runs too), whatever they report, stays alive: \<^verbatim>\<open>process.exit\<close> is not
  called, no callback is left in the queue, and the trace gains neither an emission of
  \<^verbatim>\<open>'exit'\<close> nor an exit.
\<close>

theorem watch_never_exits:
  assumes "exited s = None" and "pending s = 0"
    and "list_all (\<lambda>e. task_of e \<in> set watch_mode_tasks) evs"
  shows "exited (run h evs s) = None \<and> pending (run h evs s) = 0 \<and>
         filter exit_effect (out (run h evs s)) = filter exit_effect (out s)"
  using assms
proof (induction evs arbitrary: s)
  case Nil
  then show ?case by simp
next
  case (Cons e evs)
  obtain T sg where e: "e = Ev T sg"
    by (cases e)
  have T: "T \<in> set watch_mode_tasks"
    using Cons.prems(3) by (simp add: e)
  let ?s = "handle h T sg s"
  note w = step_watch [OF T, of h sg s]
  have d: "deliver h e s = ?s"
    using Cons.prems(1,2) w by (simp add: e deliver_alive tickCallback_def)
  have "exited ?s = None" "pending ?s = 0"
    using Cons.prems(1,2) w by simp_all
  moreover have "list_all (\<lambda>e. task_of e \<in> set watch_mode_tasks) evs"
    using Cons.prems(3) by simp
  ultimately have "exited (run h evs ?s) = None \<and> pending (run h evs ?s) = 0 \<and>
         filter exit_effect (out (run h evs ?s)) = filter exit_effect (out ?s)"
    by (rule Cons.IH)
  then show ?case
    using w by (simp add: d)
qed

text \<open>
  A run of \<^verbatim>\<open>ci-watch\<close> with four lint violations and a failing test, then a failing
  \<^verbatim>\<open>test-watch\<close>: the flag is set and the process is alive.
\<close>

theorem watch_never_exits_witness:
  "exited init = None \<and> pending init = 0 \<and>
   list_all (\<lambda>e. task_of e \<in> set watch_mode_tasks) watch_run \<and>
   exitCode (run posix watch_run init) = 1 \<and>
   exited (run posix watch_run init) = None \<and>
   filter exit_effect (out (run posix watch_run init)) = []"
proof -
  have a: "exited init = None" "pending init = 0"
    by (simp_all add: init_def)
  have b: "list_all (\<lambda>e. task_of e \<in> set watch_mode_tasks) watch_run"
    by (simp add: watch_run_def watch_mode_tasks_def)
  have c: "exitCode (run posix watch_run init) = 1"
    by (simp add: watch_run_def concrete four_violations_def host_ops handlers)
  have d: "out init = []"
    by (simp add: init_def)
  show ?thesis
    using a b c d watch_never_exits [OF a b, of posix] by simp
qed

section \<open>Turns of the event loop\<close>

text \<open>An event alone in its turn is the delivery of the event.\<close>

lemma deliver_turn: "deliver h e s = turn h [e] s"
  by (cases e) (simp add: deliver.simps turn_def)

lemma run_is_run_turns: "run h evs s = run_turns h (map (\<lambda>e. [e]) evs) s"
  by (induction evs arbitrary: s) (simp_all add: run_turns_def deliver_turn)

lemma run_turns_Nil [simp]: "run_turns h [] s = s"
  by (simp add: run_turns_def)

lemma run_turns_Cons [simp]: "run_turns h (t # ts) s = run_turns h ts (turn h t s)"
  by (simp add: run_turns_def)

lemma run_turns_append: "run_turns h (ts @ ts') s = run_turns h ts' (run_turns h ts s)"
  by (simp add: run_turns_def)

lemma turn_dead: "exited s \<noteq> None \<Longrightarrow> turn h evs s = s"
  by (auto simp: turn_def)

lemma run_turns_dead: "exited s \<noteq> None \<Longrightarrow> run_turns h ts s = s"
  by (induction ts) (simp_all add: turn_dead)

text \<open>What no code of the module does: end the process, or take a callback back.\<close>

lemma handle_exited: "exited (handle h T sg s) = exited s"
  by (cases "(h, T, sg, s)" rule: handle.cases) (simp_all add: host_ops handlers Let_def)

lemma handle_pending: "pending s \<le> pending (handle h T sg s)"
  by (cases "(h, T, sg, s)" rule: handle.cases) (simp_all add: host_ops handlers Let_def)


text \<open>Only an invocation clears the flag.\<close>

lemma handle_keeps_flag:
  "sg \<noteq> Invoke \<Longrightarrow> exitCode s \<noteq> 0 \<Longrightarrow> exitCode (handle h T sg s) \<noteq> 0"
  by (cases "(h, T, sg, s)" rule: handle.cases) (simp_all add: host_ops handlers Let_def)

text \<open>The module emits \<^verbatim>\<open>'exit'\<close> with the flag set only.\<close>

lemma handle_queues_flagged:
  "pending s < pending (handle h T sg s) \<Longrightarrow> exitCode (handle h T sg s) \<noteq> 0"
  by (cases "(h, T, sg, s)" rule: handle.cases)
     (simp_all add: host_ops handlers Let_def split: if_splits)


lemma fold_exited: "exited (fold (dispatch h) evs s) = exited s"
proof (induction evs arbitrary: s)
  case Nil
  show ?case by simp
next
  case (Cons e evs)
  then show ?case
    by (cases e) (simp add: handle_exited)
qed

lemma fold_pending: "pending s \<le> pending (fold (dispatch h) evs s)"
proof (induction evs arbitrary: s)
  case Nil
  show ?case by simp
next
  case (Cons e evs)
  obtain T sg where e: "e = Ev T sg"
    by (cases e)
  have "pending s \<le> pending (handle h T sg s)"
    by (rule handle_pending)
  also have "\<dots> \<le> pending (fold (dispatch h) evs (handle h T sg s))"
    by (rule Cons.IH)
  finally show ?case
    by (simp add: e)
qed



text \<open>A turn in which nothing is queued, and one in which something is.\<close>

lemma turn_quiet:
  "exited s = None \<Longrightarrow> pending (fold (dispatch h) evs s) = 0 \<Longrightarrow>
   turn h evs s = fold (dispatch h) evs s"
  by (simp add: turn_def tickCallback_def)

lemma turn_exits:
  assumes "exited s = None" and "0 < pending (fold (dispatch h) evs s)"
  shows "out (turn h evs s) = out (fold (dispatch h) evs s) @
           [ConsoleLog [failed_message h], ProcessExit (exitCode (fold (dispatch h) evs s))]"
    and "exited (turn h evs s) = Some (exitCode (fold (dispatch h) evs s))"
  using assms
  by (simp_all add: turn_def tickCallback_def fold_exited failed_message_def host_ops handlers)

section \<open>The end of the process\<close>

text \<open>
  C8, as the code has it. When the listener of \<^verbatim>\<open>'exit'\<close> is called in a process that is
  alive and its callback runs, the callback logs the message \<^verbatim>\<open>gulp '...' failed\<close> whatever
  the flag is, and the process ends with the value \<open>exitCode\<close> has then; and no code of
  the module queues that callback with the flag clear. At the real end of the process the
  callback the listener queues is dropped: nothing is logged and the status is 0, whatever
  the flag is.
\<close>

theorem exit_listener_alive_and_at_end:
  assumes "exited s = None" and "pending s = 0"
  shows "out (tickCallback h (exit_listener s)) =
           out s @ [ConsoleLog [failed_message h], ProcessExit (exitCode s)] \<and>
         exited (tickCallback h (exit_listener s)) = Some (exitCode s) \<and>
         exit_status (tickCallback h (exit_listener s)) = exitCode s \<and>
         (0 < pending (handle h T sg s) \<longrightarrow> exitCode (handle h T sg s) \<noteq> 0) \<and>
         out (tickCallback h (process_end s)) = out s \<and>
         exit_status (tickCallback h (process_end s)) = 0"
proof -
  have "0 < pending (handle h T sg s) \<longrightarrow> exitCode (handle h T sg s) \<noteq> 0"
    using handle_queues_flagged [of s h T sg] assms(2) by simp
  then show ?thesis
    using assms
    by (simp add: tickCallback_def exit_status_def failed_message_def process_end_def host_ops handlers)
qed

text \<open>
  With the flag clear: called in the live process, the listener has the message logged
  all the same; at the real end of the process nothing is logged.
\<close>

theorem exit_listener_alive_and_at_end_witness:
  "exited init = None \<and> pending init = 0 \<and> exitCode init = 0 \<and>
   out (tickCallback posix (exit_listener init)) = [ConsoleLog [failed_message posix], ProcessExit 0] \<and>
   exit_status (tickCallback posix (exit_listener init)) = 0 \<and>
   out (tickCallback posix (process_end init)) = [] \<and>
   pending (handle posix Test (Error (JsError ''1 test failed'')) init) = 1 \<and>
   exitCode (handle posix Test (Error (JsError ''1 test failed'')) init) = 1"
proof -
  have a: "exited init = None" "pending init = 0"
    by (simp_all add: init_def)
  have b: "exitCode init = 0" "out init = []"
    by (simp_all add: init_def)
  have c: "pending (handle posix Test (Error (JsError ''1 test failed'')) init) = 1"
    "exitCode (handle posix Test (Error (JsError ''1 test failed'')) init) = 1"
    by (simp_all add: init_def host_ops handlers)
  note t = exit_listener_alive_and_at_end [OF a, of posix Test "Error (JsError ''1 test failed'')"]
  have "out (tickCallback posix (exit_listener init)) = out init @ [ConsoleLog [failed_message posix], ProcessExit (exitCode init)]"
    and "exit_status (tickCallback posix (exit_listener init)) = exitCode init"
    and "out (tickCallback posix (process_end init)) = out init"
    using t by blast+
  then show ?thesis
    using a b c by simp
qed

text \<open>
  C8 as it is stated fails at the real end of a process. A run of \<^verbatim>\<open>lint\<close> passes and the
  process ends: the message is not logged. A run of \<^verbatim>\<open>lint-watch\<close> fails and the process
  ends: the flag is set and the status is 0.
\<close>

theorem real_end_logs_nothing:
  "ConsoleLog [failed_message posix] \<notin> set (out (process_end (run posix passing_run init))) \<and>
   exitCode (process_end (run posix first_run init)) = 1 \<and>
   exit_status (process_end (run posix first_run init)) = 0"
  by (simp add: passing_run_def first_run_def process_end_def exit_status_def concrete passing_def
      four_violations_def failed_message_def posix_def host_ops handlers)

section \<open>Failure in normal mode\<close>




section \<open>The verdict of ci\<close>

text \<open>While no task is invoked, a callback is queued with the flag set only.\<close>

lemma fold_queued_flagged:
  assumes "list_all (\<lambda>e. signal_of e \<noteq> Invoke) evs"
    and "0 < pending s \<longrightarrow> exitCode s \<noteq> 0"
  shows "0 < pending (fold (dispatch h) evs s) \<longrightarrow> exitCode (fold (dispatch h) evs s) \<noteq> 0"
  using assms
proof (induction evs arbitrary: s)
  case Nil
  then show ?case by simp
next
  case (Cons e evs)
  obtain T sg where e: "e = Ev T sg"
    by (cases e)
  have sg: "sg \<noteq> Invoke"
    using Cons.prems(1) by (simp add: e)
  have "0 < pending (handle h T sg s) \<longrightarrow> exitCode (handle h T sg s) \<noteq> 0"
  proof (cases "pending s < pending (handle h T sg s)")
    case True
    then show ?thesis
      by (simp add: handle_queues_flagged)
  next
    case False
    then have "pending (handle h T sg s) = pending s"
      using handle_pending [of s h T sg] by simp
    then show ?thesis
      using Cons.prems(2) handle_keeps_flag [OF sg, of s h T] by auto
  qed
  then show ?case
    using Cons.IH Cons.prems(1) by (simp add: e)
qed

text \<open>
  While no task is invoked, the process ends with a status other than 0 exactly when some
  listener of the run queues the callback, however the events are grouped in turns.
\<close>

lemma status_iff_queued:
  assumes "exited s = None" and "pending s = 0"
    and "list_all (\<lambda>e. signal_of e \<noteq> Invoke) (concat turns)"
  shows "exit_status (run_turns h turns s) \<noteq> 0 \<longleftrightarrow>
         0 < pending (fold (dispatch h) (concat turns) s)"
  using assms
proof (induction turns arbitrary: s)
  case Nil
  then show ?case by (simp add: exit_status_def)
next
  case (Cons t turns)
  define s1 where "s1 = fold (dispatch h) t s"
  have ni: "list_all (\<lambda>e. signal_of e \<noteq> Invoke) t"
    "list_all (\<lambda>e. signal_of e \<noteq> Invoke) (concat turns)"
    using Cons.prems(3) by simp_all
  have c: "fold (dispatch h) (concat (t # turns)) s = fold (dispatch h) (concat turns) s1"
    by (simp add: s1_def)
  have a1: "exited s1 = None"
    using Cons.prems(1) by (simp add: s1_def fold_exited)
  show ?case
  proof (cases "pending s1 = 0")
    case True
    then have "turn h t s = s1"
      using Cons.prems(1) unfolding s1_def by (simp add: turn_quiet)
    then show ?thesis
      using Cons.IH [OF a1 True ni(2)] by (simp only: run_turns_Cons c)
  next
    case False
    then have q: "0 < pending s1"
      by simp
    have "exitCode s1 \<noteq> 0"
      using fold_queued_flagged [OF ni(1), of s h] Cons.prems(2) q by (simp add: s1_def)
    moreover have "exited (turn h t s) = Some (exitCode s1)"
      using turn_exits(2) [OF Cons.prems(1), of h t] q by (simp add: s1_def)
    ultimately have "exit_status (run_turns h (t # turns) s) \<noteq> 0"
      by (simp add: run_turns_dead exit_status_def)
    moreover have "0 < pending (fold (dispatch h) (concat turns) s1)"
      using q fold_pending [of s1 h "concat turns"] by linarith
    ultimately show ?thesis
      unfolding c by simp
  qed
qed

text \<open>One event of a run of \<^verbatim>\<open>ci\<close>, by the state it meets.\<close>

lemma ci_event_cases:
  assumes "task_of e \<in> set (dependencies Ci)" and "signal_of e \<noteq> Invoke" and "heard e"
  obtains sg where "e = Ev LessTest sg" "sg \<noteq> Invoke"
  | f where "e = Ev Lint (File f)" | "e = Ev Lint End"
  | f where "e = Ev Felint (File f)" | "e = Ev Felint End"
  | err where "e = Ev TestCover (Error err)" | f where "e = Ev TestCover (File f)"
  | "e = Ev TestCover End"
proof -
  obtain T sg where e: "e = Ev T sg"
    by (cases e)
  show ?thesis
    using assms that unfolding e by (cases sg) auto
qed

lemma step_clean:
  assumes "pending s = 0" and "exitCode s = 0"
    and "task_of e \<in> set (dependencies Ci)" and "signal_of e \<noteq> Invoke" and "heard e"
    and "\<not> reports_failure e \<or> task_of e = LessTest"
  shows "pending (dispatch h e s) = 0 \<and> exitCode (dispatch h e s) = 0"
  using assms(3-5)
proof (cases e rule: ci_event_cases)
  case (1 sg)
  then show ?thesis
    using assms(1,2) by (cases sg) (simp_all add: host_ops handlers Let_def)
qed (use assms in \<open>simp_all add: host_ops handlers Let_def\<close>)

lemma step_flagged:
  assumes "exited s = None" and "exitCode s \<noteq> 0 \<or> reports_failure e \<and> task_of e \<noteq> LessTest"
    and "task_of e \<in> set (dependencies Ci)" and "signal_of e \<noteq> Invoke" and "heard e"
  shows "exitCode (dispatch h e s) \<noteq> 0 \<and> exited (dispatch h e s) = None \<and>
         (escalation e \<longrightarrow> 0 < pending (dispatch h e s))"
  using assms(3-5)
proof (cases e rule: ci_event_cases)
  case (1 sg)
  then show ?thesis
    using assms(1,2) by (cases sg) (simp_all add: host_ops handlers Let_def)
qed (use assms in \<open>auto simp add: host_ops handlers Let_def\<close>)

lemma flat_clean:
  assumes "pending s = 0" and "exitCode s = 0" and "pipeline_events evs"
    and "list_all (\<lambda>e. \<not> reports_failure e \<or> task_of e = LessTest) evs"
  shows "pending (fold (dispatch h) evs s) = 0"
  using assms
proof (induction evs arbitrary: s)
  case Nil
  then show ?case by simp
next
  case (Cons e evs)
  have "pending (dispatch h e s) = 0 \<and> exitCode (dispatch h e s) = 0"
    using Cons.prems by (intro step_clean) (simp_all add: pipeline_events_def)
  moreover have "pipeline_events evs" "list_all (\<lambda>e. \<not> reports_failure e \<or> task_of e = LessTest) evs"
    using Cons.prems by (simp_all add: pipeline_events_def)
  ultimately show ?case
    using Cons.IH by simp
qed

lemma flat_flagged:
  assumes "exited s = None" and "exitCode s \<noteq> 0" and "pipeline_events evs"
    and "list_ex escalation evs"
  shows "0 < pending (fold (dispatch h) evs s)"
  using assms
proof (induction evs arbitrary: s)
  case Nil
  then show ?case by simp
next
  case (Cons e evs)
  have p: "task_of e \<in> set (dependencies Ci)" "signal_of e \<noteq> Invoke" "heard e" "pipeline_events evs"
    using Cons.prems(3) by (simp_all add: pipeline_events_def)
  have st: "exitCode (dispatch h e s) \<noteq> 0 \<and> exited (dispatch h e s) = None \<and>
            (escalation e \<longrightarrow> 0 < pending (dispatch h e s))"
    using Cons.prems(1,2) p(1-3) by (intro step_flagged) simp_all
  show ?case
  proof (cases "escalation e")
    case True
    then have "0 < pending (dispatch h e s)"
      using st by simp
    then show ?thesis
      using fold_pending [of "dispatch h e s" h evs] by simp
  next
    case False
    then have "list_ex escalation evs"
      using Cons.prems(4) by simp
    then show ?thesis
      using st Cons.IH [OF _ _ p(4)] by simp
  qed
qed

lemma ended_tail: "ended T (e # evs) \<Longrightarrow> ended T evs"
  by (auto simp: ended_def Let_def split: if_splits)

lemma ended_file:
  assumes "ended T (Ev T (File f) # evs)"
  shows "Ev T End \<in> set evs"
proof -
  let ?sgs = "map signal_of (filter (\<lambda>e. task_of e = T) evs)"
  have "?sgs \<noteq> [] \<and> last ?sgs = End"
    using assms by (auto simp: ended_def Let_def split: if_splits)
  then have "End \<in> set ?sgs"
    using last_in_set [of ?sgs] by auto
  then obtain e where e: "e \<in> set evs" "task_of e = T" "signal_of e = End"
    by auto
  have "e = Ev T End"
    using e(2,3) by (cases e) simp
  then show ?thesis
    using e(1) by simp
qed

lemma flat_failure:
  assumes "exited s = None" and "pending s = 0" and "exitCode s = 0" and "pipeline_events evs"
    and "ended Lint evs" and "ended Felint evs"
    and "list_ex (\<lambda>e. reports_failure e \<and> task_of e \<noteq> LessTest) evs"
  shows "0 < pending (fold (dispatch h) evs s)"
  using assms
proof (induction evs arbitrary: s)
  case Nil
  then show ?case by simp
next
  case (Cons e evs)
  have p: "task_of e \<in> set (dependencies Ci)" "signal_of e \<noteq> Invoke" "heard e" "pipeline_events evs"
    using Cons.prems(4) by (simp_all add: pipeline_events_def)
  have en: "ended Lint evs" "ended Felint evs"
    using Cons.prems(5,6) by (auto dest: ended_tail)
  show ?case
  proof (cases "reports_failure e \<and> task_of e \<noteq> LessTest")
    case True
    have st: "exitCode (dispatch h e s) \<noteq> 0 \<and> exited (dispatch h e s) = None \<and>
              (escalation e \<longrightarrow> 0 < pending (dispatch h e s))"
      using Cons.prems(1) True p(1-3) by (intro step_flagged) simp_all
    show ?thesis
    proof (cases "escalation e")
      case True
      then have "0 < pending (dispatch h e s)"
        using st by simp
      then show ?thesis
        using fold_pending [of "dispatch h e s" h evs] by simp
    next
      case False
      have "list_ex escalation evs"
        using p(1-3)
      proof (cases e rule: ci_event_cases)
        case (2 f)
        then have "Ev Lint End \<in> set evs"
          using Cons.prems(5) by (auto dest: ended_file)
        then show ?thesis
          by (auto simp: list_ex_iff intro: bexI [of _ "Ev Lint End"])
      next
        case (4 f)
        then have "Ev Felint End \<in> set evs"
          using Cons.prems(6) by (auto dest: ended_file)
        then show ?thesis
          by (auto simp: list_ex_iff intro: bexI [of _ "Ev Felint End"])
      qed (use True False in simp_all)
      then show ?thesis
        using st flat_flagged [OF _ _ p(4)] by simp
    qed
  next
    case False
    then have c: "\<not> reports_failure e \<or> task_of e = LessTest"
      by auto
    have "list_ex (\<lambda>e. reports_failure e \<and> task_of e \<noteq> LessTest) evs"
      using Cons.prems(7) False by simp
    moreover have "pending (dispatch h e s) = 0 \<and> exitCode (dispatch h e s) = 0"
      using Cons.prems(2,3) p(1-3) c by (intro step_clean) simp_all
    moreover have "exited (dispatch h e s) = None"
      using Cons.prems(1) by (cases e) (simp add: handle_exited)
    ultimately show ?thesis
      using Cons.IH [OF _ _ _ p(4) en] by simp
  qed
qed

lemma ci_start_resets:
  assumes "exited s = None" and "pending s = 0"
  shows "turn h ci_start s = beforeEach s"
  using assms
  by (simp add: ci_start_def turn_def tickCallback_def lessTest_def lint_def felint_def
      cover_def beforeEach_def)

lemma no_failure_iff:
  assumes "pipeline_events evs"
  shows "list_all (\<lambda>e. \<not> reports_failure e \<or> task_of e = LessTest) evs \<longleftrightarrow>
         succeeded Lint evs \<and> succeeded Felint evs \<and> succeeded TestCover evs"
  using assms
  by (induction evs) (auto simp: succeeded_def pipeline_events_def)

text \<open>
  C2, as the code has it. \<^verbatim>\<open>ci\<close> depends on \<^verbatim>\<open>lessTest\<close>, \<^verbatim>\<open>lint\<close>, \<^verbatim>\<open>felint\<close> and
  \<^verbatim>\<open>test-cover\<close>. Take a run of \<^verbatim>\<open>ci\<close>: the four are invoked in one turn, then come the
  events of their pipelines that the module hears, grouped in turns in any way, the lint
  and the felint pipeline ending. The process ends with status 0 if and only if \<^verbatim>\<open>lint\<close>,
  \<^verbatim>\<open>felint\<close> and \<^verbatim>\<open>test-cover\<close> succeed. Whether \<^verbatim>\<open>lessTest\<close> succeeds does not enter.
\<close>

theorem ci_verdict:
  assumes "exited s = None" and "pending s = 0" and "pipeline_events (concat turns)"
    and "ended Lint (concat turns)" and "ended Felint (concat turns)"
  shows "dependencies Ci = [LessTest, Lint, Felint, TestCover] \<and>
         (exit_status (run_turns h (ci_start # turns) s) = 0 \<longleftrightarrow>
          succeeded Lint (concat turns) \<and> succeeded Felint (concat turns) \<and>
          succeeded TestCover (concat turns))"
proof -
  let ?s = "beforeEach s"
  let ?evs = "concat turns"
  have r: "turn h ci_start s = ?s"
    using assms(1,2) by (rule ci_start_resets)
  have b: "exited ?s = None" "pending ?s = 0" "exitCode ?s = 0"
    using assms(1,2) by (simp_all add: beforeEach_def)
  have ni: "list_all (\<lambda>e. signal_of e \<noteq> Invoke) ?evs"
    using assms(3) by (simp add: pipeline_events_def list_all_iff)
  note q = status_iff_queued [OF b(1,2) ni, of h]
  show ?thesis
  proof (cases "list_all (\<lambda>e. \<not> reports_failure e \<or> task_of e = LessTest) ?evs")
    case True
    then have "pending (fold (dispatch h) ?evs ?s) = 0"
      using b(2,3) assms(3) by (intro flat_clean)
    then have "exit_status (run_turns h turns ?s) = 0"
      using q by simp
    then show ?thesis
      using True no_failure_iff [OF assms(3)] by (simp add: r)
  next
    case False
    then have "list_ex (\<lambda>e. reports_failure e \<and> task_of e \<noteq> LessTest) ?evs"
      by (auto simp: list_ex_iff list_all_iff)
    then have "0 < pending (fold (dispatch h) ?evs ?s)"
      using b assms(3-5) by (intro flat_failure)
    then have "exit_status (run_turns h turns ?s) \<noteq> 0"
      using q by simp
    then show ?thesis
      using False no_failure_iff [OF assms(3)] by (simp add: r)
  qed
qed

text \<open>
  A run of \<^verbatim>\<open>ci\<close> with four lint violations, in which the felint and the lint pipeline end
  in the same turn, ends with status 1.
\<close>

theorem ci_verdict_witness:
  "exited init = None \<and> pending init = 0 \<and> pipeline_events (concat lint_fails) \<and>
   ended Lint (concat lint_fails) \<and> ended Felint (concat lint_fails) \<and>
   exit_status (run_turns posix (ci_start # lint_fails) init) = 1 \<and>
   \<not> succeeded Lint (concat lint_fails)"
proof -
  have a: "exited init = None" "pending init = 0"
    by (simp_all add: init_def)
  have b: "pipeline_events (concat lint_fails)" "ended Lint (concat lint_fails)"
    "ended Felint (concat lint_fails)"
    by (simp_all add: pipeline_events_def ended_def lint_fails_def)
  have c: "\<not> succeeded Lint (concat lint_fails)"
    by (simp add: succeeded_def lint_fails_def four_violations_def passing_def)
  have d: "exit_status (run_turns posix (ci_start # lint_fails) init) = 1"
    by (simp add: ci_start_def lint_fails_def exit_status_def turn_def init_def tickCallback_def
        four_violations_def passing_def host_ops handlers)
  have "exit_status (run_turns posix (ci_start # lint_fails) init) = 0 \<longleftrightarrow>
        succeeded Lint (concat lint_fails) \<and> succeeded Felint (concat lint_fails) \<and>
        succeeded TestCover (concat lint_fails)"
    using ci_verdict [OF a b, of posix] by blast
  then show ?thesis
    using a b c d by (intro conjI)
qed

text \<open>
  C2 as it is stated fails when the style compiler is the one to fail: \<^verbatim>\<open>lessTest\<close> does
  not succeed and the run of \<^verbatim>\<open>ci\<close> ends with status 0.
\<close>

theorem ci_passes_when_less_fails:
  "exit_status (run_turns posix (ci_start # less_fails) init) = 0 \<and>
   \<not> succeeded LessTest (concat less_fails)"
  by (simp add: ci_start_def less_fails_def exit_status_def succeeded_def turn_def init_def
      tickCallback_def passing_def host_ops handlers)

section \<open>Merging the options\<close>

lemma lookup_assign_properties:
  "fmlookup (assign_properties fs object) k =
     (case fmlookup fs k of None \<Rightarrow> fmlookup object k | Some f \<Rightarrow> Some (f (property object k)))"
  by (auto simp: assign_properties_def split: option.splits dest: fmdom_notD)

lemma array_replaced: "v \<noteq> Undefined \<Longrightarrow> is_array d \<Longrightarrow> merge_value customizer v d = v"
  by (cases v) (auto simp: customizer_def assign_def)

lemma plain_value_assigned:
  "v \<noteq> Undefined \<Longrightarrow> \<not> is_array v \<Longrightarrow> \<not> is_object v \<Longrightarrow> merge_value customizer v d = v"
  by (cases v) (auto simp: customizer_def assign_def)

lemma merge_is_merge_value:
  "is_object object \<Longrightarrow> is_object source \<Longrightarrow> merge object source customizer = merge_value customizer source object"
  by (cases object; cases source) (simp_all add: merge_def customizer_def)

lemma at_merge_value:
  assumes "at d p = Some x" and "at v p = Some y" and "p \<noteq> []"
  shows "at (merge_value customizer v d) p = Some (merge_value customizer y x)"
  using assms
proof (induction p arbitrary: d v)
  case Nil
  then show ?case by simp
next
  case (Cons k ks)
  obtain gs d' where d: "d = Object gs" "fmlookup gs k = Some d'" "at d' ks = Some x"
    using Cons.prems(1) by (cases d) (auto split: option.splits)
  obtain fs v' where v: "v = Object fs" "fmlookup fs k = Some v'" "at v' ks = Some y"
    using Cons.prems(2) by (cases v) (auto split: option.splits)
  have m: "at (merge_value customizer v d) (k # ks) = at (merge_value customizer v' d') ks"
    by (simp add: d v customizer_def lookup_assign_properties property_def)
  have "at (merge_value customizer v' d') ks = Some (merge_value customizer y x)"
  proof (cases ks)
    case Nil
    then show ?thesis
      using d(3) v(3) by simp
  next
    case (Cons a list)
    then show ?thesis
      using Cons.IH [OF d(3) v(3)] by simp
  qed
  then show ?case
    by (simp only: m)
qed

lemma at_merge_value_kept:
  assumes "at d (q @ k # r) = Some x" and "at v q = Some (Object fs)" and "fmlookup fs k = None"
  shows "at (merge_value customizer v d) (q @ k # r) = Some x"
  using assms
proof (induction q arbitrary: d v)
  case Nil
  obtain gs where d: "d = Object gs"
    using Nil.prems(1) by (cases d) auto
  show ?case
    using Nil.prems by (simp add: d customizer_def lookup_assign_properties)
next
  case (Cons j q)
  obtain gs d' where d: "d = Object gs" "fmlookup gs j = Some d'" "at d' (q @ k # r) = Some x"
    using Cons.prems(1) by (cases d) (auto split: option.splits)
  obtain hs v' where v: "v = Object hs" "fmlookup hs j = Some v'" "at v' q = Some (Object fs)"
    using Cons.prems(2) by (cases v) (auto split: option.splits)
  have "at (merge_value customizer v d) ((j # q) @ k # r) = at (merge_value customizer v' d') (q @ k # r)"
    by (simp add: d v customizer_def lookup_assign_properties property_def)
  then show ?case
    using Cons.IH [OF d(3) v(3) Cons.prems(3)] by simp
qed

lemma at_is_object: "at v (k # ks) = Some x \<Longrightarrow> is_object v"
  by (cases v) auto

lemma merge_at:
  assumes "at object p = Some d"
  shows "(at source p = Some v \<and> v \<noteq> Undefined \<and> p \<noteq> [] \<longrightarrow>
            at (merge object source customizer) p = Some (merge_value customizer v d) \<and>
            (is_array d \<longrightarrow> merge_value customizer v d = v) \<and>
            (\<not> is_array v \<and> \<not> is_object v \<longrightarrow> merge_value customizer v d = v)) \<and>
         (\<forall>q k r fs. p = q @ k # r \<and> at source q = Some (Object fs) \<and> fmlookup fs k = None \<longrightarrow>
            at (merge object source customizer) p = Some d)"
proof (intro conjI impI allI)
  assume a: "at source p = Some v \<and> v \<noteq> Undefined \<and> p \<noteq> []"
  then obtain k ks where p: "p = k # ks"
    by (cases p) auto
  have "is_object object" "is_object source"
    using assms a by (auto simp: p dest: at_is_object)
  then show "at (merge object source customizer) p = Some (merge_value customizer v d)"
    using assms a by (simp add: merge_is_merge_value at_merge_value)
  show "merge_value customizer v d = v" if "is_array d"
    using a that by (simp add: array_replaced)
  show "merge_value customizer v d = v" if "\<not> is_array v \<and> \<not> is_object v"
    using a that by (simp add: plain_value_assigned)
next
  fix q k r fs
  assume b: "p = q @ k # r \<and> at source q = Some (Object fs) \<and> fmlookup fs k = None"
  have "is_object object"
    using assms b by (cases q) (auto dest: at_is_object)
  moreover have "is_object source"
    using b assms by (cases q) (auto dest: at_is_object)
  ultimately show "at (merge object source customizer) p = Some d"
    using assms b by (simp add: merge_is_merge_value at_merge_value_kept)
qed

text \<open>
  C9. Take a path of property names at which the defaults have a value \<open>d\<close>. If the
  caller's options have a value \<open>v\<close> at that path, not \<^verbatim>\<open>undefined\<close>, then the merged
  options have there the merge of \<open>v\<close> into \<open>d\<close>, which is \<open>v\<close> itself when \<open>d\<close>
  is an array (replaced, not concatenated) and when \<open>v\<close> is neither an array nor an
  object. If the caller's options have an object along the path that lacks the next
  property, the merged options keep \<open>d\<close>.
\<close>

theorem options_merge:
  assumes "at (default_options server client) p = Some d"
  shows "(at options p = Some v \<and> v \<noteq> Undefined \<and> p \<noteq> [] \<longrightarrow>
            at (gulp_options server client options) p = Some (merge_value customizer v d) \<and>
            (is_array d \<longrightarrow> at (gulp_options server client options) p = Some v) \<and>
            (\<not> is_array v \<and> \<not> is_object v \<longrightarrow> at (gulp_options server client options) p = Some v)) \<and>
         (\<forall>q k r fs. p = q @ k # r \<and> at options q = Some (Object fs) \<and> fmlookup fs k = None \<longrightarrow>
            at (gulp_options server client options) p = Some d)"
  using merge_at [OF assms, of options v] unfolding gulp_options_def by metis

text \<open>
  The caller gives one pattern for \<open>paths.lint\<close>, where the defaults have four: the
  merged options have that one pattern; \<open>paths.felint\<close>, which the caller does not
  give, keeps its default.
\<close>

theorem options_merge_witness:
  "at (default_options ''lint/.jshintrc'' ''felint/.jshintrc'') [''paths'', ''lint'']
     = Some (Array [String ''lib/**/*.js'', String ''test/**/*.js'',
                    String ''!node_modules/**'', String ''!target/**'']) \<and>
   at my_options [''paths'', ''lint''] = Some (Array [String ''src/**/*.js'']) \<and>
   at (gulp_options ''lint/.jshintrc'' ''felint/.jshintrc'' my_options) [''paths'', ''lint'']
     = Some (Array [String ''src/**/*.js'']) \<and>
   at (gulp_options ''lint/.jshintrc'' ''felint/.jshintrc'' my_options) [''paths'', ''felint'']
     = Some (Array [String ''content/**/*.js''])"
proof -
  let ?o = "default_options ''lint/.jshintrc'' ''felint/.jshintrc''"
  let ?d = "Array [String ''lib/**/*.js'', String ''test/**/*.js'',
                   String ''!node_modules/**'', String ''!target/**'']"
  let ?v = "Array [String ''src/**/*.js'']"
  let ?fs = "fmap_of_list [(''lint'', ?v)]"
  have a: "at ?o [''paths'', ''lint''] = Some ?d"
    by (simp add: default_options_def fmlookup_of_list)
  have b: "at my_options [''paths'', ''lint''] = Some ?v"
    by (simp add: my_options_def fmlookup_of_list)
  have c: "?v \<noteq> Undefined" "[''paths'', ''lint''] \<noteq> []" "is_array ?d"
    by simp_all
  have "at (gulp_options ''lint/.jshintrc'' ''felint/.jshintrc'' my_options) [''paths'', ''lint''] = Some ?v"
    using options_merge [OF a, of my_options ?v] b c by blast
  then have r: "at (gulp_options ''lint/.jshintrc'' ''felint/.jshintrc'' my_options) [''paths'', ''lint''] = Some ?v"
    .
  have e: "at ?o [''paths'', ''felint''] = Some (Array [String ''content/**/*.js''])"
    by (simp add: default_options_def fmlookup_of_list)
  have f: "[''paths'', ''felint''] = [''paths''] @ ''felint'' # []"
    "at my_options [''paths''] = Some (Object ?fs)" "fmlookup ?fs ''felint'' = None"
    by (simp_all add: my_options_def fmlookup_of_list)
  have "at (gulp_options ''lint/.jshintrc'' ''felint/.jshintrc'' my_options) [''paths'', ''felint''] = Some (Array [String ''content/**/*.js''])"
    using options_merge [OF e, of my_options] f by blast
  then have k: "at (gulp_options ''lint/.jshintrc'' ''felint/.jshintrc'' my_options) [''paths'', ''felint'']
     = Some (Array [String ''content/**/*.js''])"
    .
  show ?thesis
    using a b r k by (intro conjI)
qed

end
